theory Spec2Isabelle
  imports Main
begin

section \<open>The authentication store of src/auth/authentication.py\<close>

text \<open>
  The class \<open>AuthSystem\<close> keeps its whole state in one SQLite database with the tables
  \<open>users\<close> and \<open>auth_logs\<close> (the table \<open>sessions\<close> is created and never touched).
  The database is modelled as a record of the two tables, each a list of rows in
  insertion order, together with the AUTOINCREMENT counters; every method takes the
  database and returns the new one beside its Python result.

  The model covers an open connection: no statement fails for a storage fault, so the
  only SQL error that can arise is a constraint violation (\<open>sqlite3.IntegrityError\<close>).
  The columns \<open>created_at\<close> of \<open>users\<close> and \<open>timestamp\<close> of \<open>auth_logs\<close> are filled
  by a column default and read by none of the methods below; they are left out.
  Messages written to the Python \<open>logger\<close> are not part of the state.
\<close>

type_synonym timestamp = int

record user_row =
  row_id :: int
  username :: string
  password_hash :: string
  password_salt :: string
  role :: string
  full_name :: "string option"
  email :: "string option"
  is_active :: bool
  last_login :: "timestamp option"
  login_attempts :: int
  locked_until :: "timestamp option"

record log_row =
  log_id :: int
  log_user_id :: "int option"
  log_username :: string
  action :: string
  ip_address :: "string option"
  user_agent :: "string option"
  success :: bool

record db =
  users :: "user_row list"
  users_seq :: int
  auth_logs :: "log_row list"
  auth_logs_seq :: int

datatype sql_error = IntegrityError

text \<open>
  Time. A timestamp is a number of microseconds. \<open>now_check\<close> is what
  \<open>datetime.now()\<close> returns at the lock test of \<open>authenticate\<close>, \<open>now_lock\<close> what it
  returns inside \<open>_increment_login_attempts\<close>, and \<open>current_timestamp\<close> the value of
  SQLite's \<open>CURRENT_TIMESTAMP\<close> in \<open>_update_last_login\<close>. \<open>locked_until\<close> is written
  with \<open>isoformat()\<close> and read back with \<open>fromisoformat\<close>, which returns the datetime
  that was written.
\<close>

record clock =
  now_check :: timestamp
  now_lock :: timestamp
  current_timestamp :: timestamp

definition timedelta_minutes :: "int \<Rightarrow> timestamp" where
  "timedelta_minutes m = m * 60 * 1000000"

subsection \<open>Password hashing\<close>

text \<open>
  \<open>hashlib.pbkdf2_hmac('sha256', password, salt, iterations)\<close> followed by \<open>hex()\<close> is a
  library function; it is a parameter of the model. The salt drawn by \<open>_generate_salt\<close>
  from \<open>secrets.choice\<close> is a parameter of the methods that call it.
\<close>

type_synonym kdf = "string \<Rightarrow> string \<Rightarrow> nat \<Rightarrow> string"

definition hash_password :: "kdf \<Rightarrow> string \<Rightarrow> string \<Rightarrow> string" where
  "hash_password pbkdf2_hmac password salt =
     (let iterations = 100000 in pbkdf2_hmac password salt iterations)"

subsection \<open>The audit log\<close>

definition log_auth_action ::
  "db \<Rightarrow> int option \<Rightarrow> string \<Rightarrow> string \<Rightarrow> bool \<Rightarrow> string option \<Rightarrow> string option \<Rightarrow> db" where
  "log_auth_action d user_id uname act ok ip agent =
     d\<lparr>auth_logs := auth_logs d @
          [\<lparr>log_id = auth_logs_seq d + 1, log_user_id = user_id, log_username = uname,
            action = act, ip_address = ip, user_agent = agent, success = ok\<rparr>],
       auth_logs_seq := auth_logs_seq d + 1\<rparr>"

subsection \<open>Statements on the table users\<close>

text \<open>\<open>UPDATE users SET ... WHERE id = ?\<close>\<close>

definition update_users_by_id :: "(user_row \<Rightarrow> user_row) \<Rightarrow> int \<Rightarrow> db \<Rightarrow> db" where
  "update_users_by_id f uid d =
     d\<lparr>users := map (\<lambda>r. if row_id r = uid then f r else r) (users d)\<rparr>"

text \<open>\<open>UPDATE users SET ... WHERE username = ?\<close>, for assignments that violate no constraint\<close>

definition update_users_by_name :: "(user_row \<Rightarrow> user_row) \<Rightarrow> string \<Rightarrow> db \<Rightarrow> db" where
  "update_users_by_name f uname d =
     d\<lparr>users := map (\<lambda>r. if username r = uname then f r else r) (users d)\<rparr>"

text \<open>
  \<open>INSERT INTO users (username, password_hash, password_salt, role, full_name, email)\<close>:
  the column \<open>username\<close> is UNIQUE, the other columns take their defaults
  (\<open>is_active = 1\<close>, \<open>login_attempts = 0\<close>, \<open>last_login\<close> and \<open>locked_until\<close> NULL), the
  id is the next value of the AUTOINCREMENT sequence. \<open>create_user\<close> has checked the
  role before, so the CHECK constraint on \<open>role\<close> holds.
\<close>

definition insert_user ::
  "db \<Rightarrow> string \<Rightarrow> string \<Rightarrow> string \<Rightarrow> string \<Rightarrow> string option \<Rightarrow> string option
     \<Rightarrow> sql_error + db" where
  "insert_user d uname pw_hash salt rl fname mail =
     (if list_ex (\<lambda>r. username r = uname) (users d) then Inl IntegrityError
      else Inr (d\<lparr>users := users d @
                  [\<lparr>row_id = users_seq d + 1, username = uname, password_hash = pw_hash,
                    password_salt = salt, role = rl, full_name = fname, email = mail,
                    is_active = True, last_login = None, login_attempts = 0,
                    locked_until = None\<rparr>],
                users_seq := users_seq d + 1\<rparr>))"

subsection \<open>Lockout bookkeeping\<close>

text \<open>
  \<open>login_attempts + 1\<close> as SQLite computes it on the column \<open>login_attempts INTEGER\<close>.
  The column holds a 64-bit signed integer. Below the largest one, \<open>2^63 - 1\<close>, the sum
  is the next integer. At \<open>2^63 - 1\<close> the integer addition overflows and SQLite returns
  the floating-point number \<open>2^63\<close>, which does not fit an integer and is stored as it
  is; from then on \<open>+ 1\<close> is lost to rounding and the value stays \<open>2^63\<close>.
\<close>

definition sqlite_add_one :: "int \<Rightarrow> int" where
  "sqlite_add_one n =
     (if n < 9223372036854775807 then n + 1 else 9223372036854775808)"

definition increment_login_attempts :: "clock \<Rightarrow> db \<Rightarrow> int \<Rightarrow> db" where
  "increment_login_attempts clk d user_id =
     (let d1 = update_users_by_id
                 (\<lambda>r. r\<lparr>login_attempts := sqlite_add_one (login_attempts r)\<rparr>) user_id d
      in case find (\<lambda>r. row_id r = user_id) (users d1) of
           None \<Rightarrow> d1
         | Some r \<Rightarrow>
             if login_attempts r \<ge> 5 then
               (let lock_until = now_lock clk + timedelta_minutes 30
                in update_users_by_id (\<lambda>r. r\<lparr>locked_until := Some lock_until\<rparr>) user_id d1)
             else d1)"

definition reset_login_attempts :: "db \<Rightarrow> int \<Rightarrow> db" where
  "reset_login_attempts d user_id =
     update_users_by_id (\<lambda>r. r\<lparr>login_attempts := 0, locked_until := None\<rparr>) user_id d"

definition update_last_login :: "clock \<Rightarrow> db \<Rightarrow> int \<Rightarrow> db" where
  "update_last_login clk d user_id =
     update_users_by_id (\<lambda>r. r\<lparr>last_login := Some (current_timestamp clk)\<rparr>) user_id d"

subsection \<open>Permissions\<close>

definition get_user_permissions :: "string \<Rightarrow> (string \<times> bool) list" where
  "get_user_permissions rl =
     (if rl = ''admin'' then
        [(''can_create'', True), (''can_read'', True), (''can_update'', True),
         (''can_delete'', True),
         (''can_manage_users'', True), (''can_manage_personnel'', True),
         (''can_manage_vehicles'', True), (''can_manage_routes'', True),
         (''can_manage_journal'', True), (''can_view_reports'', True),
         (''can_generate_reports'', True), (''can_export_data'', True),
         (''can_configure_system'', True), (''can_view_logs'', True),
         (''can_backup_restore'', True)]
      else
        [(''can_create'', False), (''can_read'', True), (''can_update'', True),
         (''can_delete'', False),
         (''can_manage_users'', False), (''can_manage_personnel'', False),
         (''can_manage_vehicles'', False), (''can_manage_routes'', False),
         (''can_manage_journal'', True), (''can_view_reports'', True),
         (''can_generate_reports'', True), (''can_export_data'', False),
         (''can_configure_system'', False), (''can_view_logs'', False),
         (''can_backup_restore'', False)])"

subsection \<open>The public methods\<close>

record user_info =
  info_id :: int
  info_username :: string
  info_role :: string
  info_full_name :: "string option"
  is_admin :: bool
  permissions :: "(string \<times> bool) list"

definition create_user ::
  "kdf \<Rightarrow> string \<Rightarrow> db \<Rightarrow> string \<Rightarrow> string \<Rightarrow> string \<Rightarrow> string option \<Rightarrow> string option
     \<Rightarrow> bool \<times> db" where
  "create_user pbkdf2_hmac salt d uname password rl fname mail =
     (if rl \<notin> set [''admin'', ''user''] then (False, d)
      else
        (let pw_hash = hash_password pbkdf2_hmac password salt
         in case insert_user d uname pw_hash salt rl fname mail of
              Inl IntegrityError \<Rightarrow> (False, d)
            | Inr d1 \<Rightarrow>
                (let user_id = users_seq d1
                 in (True, log_auth_action d1 (Some user_id) uname ''create_user'' True
                             None None))))"

definition authenticate ::
  "kdf \<Rightarrow> clock \<Rightarrow> db \<Rightarrow> string \<Rightarrow> string \<Rightarrow> string option \<Rightarrow> string option
     \<Rightarrow> user_info option \<times> db" where
  "authenticate pbkdf2_hmac clk d uname password ip agent =
     (case find (\<lambda>r. username r = uname \<and> is_active r) (users d) of
        None \<Rightarrow> (None, log_auth_action d None uname ''login'' False ip agent)
      | Some u \<Rightarrow>
          if (case locked_until u of None \<Rightarrow> False | Some t \<Rightarrow> now_check clk < t) then
            (None, log_auth_action d (Some (row_id u)) uname ''login_blocked'' False ip agent)
          else
            (let input_hash = hash_password pbkdf2_hmac password (password_salt u)
             in if input_hash = password_hash u then
                  (let d1 = reset_login_attempts d (row_id u);
                       d2 = update_last_login clk d1 (row_id u);
                       info = \<lparr>info_id = row_id u, info_username = username u,
                               info_role = role u, info_full_name = full_name u,
                               is_admin = (role u = ''admin''),
                               permissions = get_user_permissions (role u)\<rparr>
                   in (Some info,
                       log_auth_action d2 (Some (row_id u)) uname ''login'' True ip agent))
                else
                  (let d1 = increment_login_attempts clk d (row_id u)
                   in (None,
                       log_auth_action d1 (Some (row_id u)) uname ''login'' False ip agent))))"

definition change_password ::
  "kdf \<Rightarrow> clock \<Rightarrow> string \<Rightarrow> db \<Rightarrow> string \<Rightarrow> string \<Rightarrow> string \<Rightarrow> bool \<times> db" where
  "change_password pbkdf2_hmac clk salt d uname old_password new_password =
     (case authenticate pbkdf2_hmac clk d uname old_password None None of
        (None, d1) \<Rightarrow> (False, d1)
      | (Some info, d1) \<Rightarrow>
          (let new_password_hash = hash_password pbkdf2_hmac new_password salt;
               d2 = update_users_by_name
                      (\<lambda>r. r\<lparr>password_hash := new_password_hash, password_salt := salt,
                             login_attempts := 0, locked_until := None\<rparr>) uname d1
           in (True, log_auth_action d2 (Some (info_id info)) uname ''change_password'' True
                       None None)))"

text \<open>
  \<open>update_user(username, **kwargs)\<close>. A keyword argument is modelled with the type of
  the column it names, as in the signature of \<open>create_user\<close>: a string or \<open>None\<close> for
  \<open>full_name\<close> and \<open>email\<close>, a string for \<open>role\<close>, a bool for \<open>is_active\<close>;
  \<open>Kw_other k\<close> is a keyword \<open>k\<close> that is none of these four. Python keeps the keywords
  of one call distinct.
\<close>

datatype kwarg =
    Kw_full_name "string option"
  | Kw_email "string option"
  | Kw_role string
  | Kw_is_active bool
  | Kw_other string

fun field :: "kwarg \<Rightarrow> string" where
  "field (Kw_full_name v) = ''full_name''"
| "field (Kw_email v) = ''email''"
| "field (Kw_role v) = ''role''"
| "field (Kw_is_active v) = ''is_active''"
| "field (Kw_other k) = k"

fun assign :: "kwarg \<Rightarrow> user_row \<Rightarrow> user_row" where
  "assign (Kw_full_name v) r = r\<lparr>full_name := v\<rparr>"
| "assign (Kw_email v) r = r\<lparr>email := v\<rparr>"
| "assign (Kw_role v) r = r\<lparr>role := v\<rparr>"
| "assign (Kw_is_active v) r = r\<lparr>is_active := v\<rparr>"
| "assign (Kw_other k) r = r"

text \<open>
  \<open>UPDATE users SET f1 = ?, ..., fn = ? WHERE username = ?\<close>: SQLite evaluates
  \<open>CHECK(role IN ('admin', 'user'))\<close> on every row the statement writes; one violation
  aborts the statement and leaves the table as it was. A statement that matches no row
  writes nothing and succeeds.
\<close>

definition update_users_set :: "db \<Rightarrow> kwarg list \<Rightarrow> string \<Rightarrow> sql_error + db" where
  "update_users_set d assignments uname =
     (let new_row = (\<lambda>r. fold assign assignments r)
      in if list_ex (\<lambda>r. username r = uname \<and> role (new_row r) \<notin> set [''admin'', ''user''])
              (users d)
         then Inl IntegrityError
         else Inr (update_users_by_name new_row uname d))"

definition update_user :: "db \<Rightarrow> string \<Rightarrow> kwarg list \<Rightarrow> bool \<times> db" where
  "update_user d uname kwargs =
     (let allowed_fields = [''full_name'', ''email'', ''role'', ''is_active''];
          update_fields = filter (\<lambda>kw. field kw \<in> set allowed_fields) kwargs
      in if update_fields = [] then (False, d)
         else case update_users_set d update_fields uname of
                Inl IntegrityError \<Rightarrow> (False, d)
              | Inr d1 \<Rightarrow> (True, d1))"

text \<open>
  \<open>DELETE FROM users WHERE username = ?\<close>. The connection never switches
  \<open>PRAGMA foreign_keys\<close> on, so the rows of \<open>auth_logs\<close> stay as they are.
\<close>

definition delete_user :: "db \<Rightarrow> string \<Rightarrow> bool \<times> db" where
  "delete_user d uname =
     (let affected = length (filter (\<lambda>r. username r = uname) (users d));
          d1 = d\<lparr>users := filter (\<lambda>r. username r \<noteq> uname) (users d)\<rparr>
      in if affected > 0 then (True, d1) else (False, d1))"

subsection \<open>Notions used to state the properties\<close>

text \<open>\<open>SELECT * FROM users WHERE username = ?\<close>: the account of a username, if any.\<close>

definition lookup_user :: "db \<Rightarrow> string \<Rightarrow> user_row option" where
  "lookup_user d uname = find (\<lambda>r. username r = uname) (users d)"

text \<open>The lock test of \<open>authenticate\<close>: the account is locked at the instant \<open>t\<close>.\<close>

definition locked_at :: "timestamp \<Rightarrow> user_row \<Rightarrow> bool" where
  "locked_at t r = (case locked_until r of None \<Rightarrow> False | Some l \<Rightarrow> t < l)"

text \<open>
  What the schema guarantees of the table \<open>users\<close>: \<open>id\<close> is the primary key drawn from
  the AUTOINCREMENT sequence, \<open>username\<close> is UNIQUE, \<open>role\<close> passes its CHECK.
\<close>

definition schema_ok :: "db \<Rightarrow> bool" where
  "schema_ok d \<longleftrightarrow>
     distinct (map row_id (users d)) \<and> distinct (map username (users d)) \<and>
     list_all (\<lambda>r. row_id r \<le> users_seq d \<and> role r \<in> set [''admin'', ''user'']) (users d)"

text \<open>
  The lockout state of every account: the counter is not negative, and a lock time is
  only present once the counter has reached 5.
\<close>

definition lockout_ok :: "db \<Rightarrow> bool" where
  "lockout_ok d \<longleftrightarrow>
     list_all (\<lambda>r. 0 \<le> login_attempts r \<and> (locked_until r \<noteq> None \<longrightarrow> 5 \<le> login_attempts r))
       (users d)"

text \<open>The database right after \<open>_init_database\<close> on a new file.\<close>

definition empty_db :: db where
  "empty_db = \<lparr>users = [], users_seq = 0, auth_logs = [], auth_logs_seq = 0\<rparr>"


text \<open>
  Concrete inputs for the instances below: a stand-in for the key derivation function
  (any function of password and salt will do), a clock, and a database holding the two
  accounts that \<open>_create_default_users\<close> seeds.
\<close>

definition demo_kdf :: kdf where
  "demo_kdf password salt iterations = salt @ ''$'' @ password"

definition demo_clock :: clock where
  "demo_clock = \<lparr>now_check = 1000, now_lock = 1001, current_timestamp = 1002\<rparr>"


text \<open>
  A database with the accounts \<open>a1\<close> (admin, password \<open>Secret1\<close>) and \<open>u1\<close> (user,
  password \<open>Secret2\<close>), the latter with a given counter of failed attempts and lock time.
\<close>

definition demo_account :: "int \<Rightarrow> timestamp option \<Rightarrow> user_row" where
  "demo_account n l =
     \<lparr>row_id = 2, username = ''u1'', password_hash = ''s2$Secret2'', password_salt = ''s2'',
      role = ''user'', full_name = None, email = None, is_active = True, last_login = None,
      login_attempts = n, locked_until = l\<rparr>"

definition demo_store :: "int \<Rightarrow> timestamp option \<Rightarrow> db" where
  "demo_store n l =
     \<lparr>users =
        [\<lparr>row_id = 1, username = ''a1'', password_hash = ''s1$Secret1'', password_salt = ''s1'',
          role = ''admin'', full_name = None, email = None, is_active = True,
          last_login = None, login_attempts = 0, locked_until = None\<rparr>,
         demo_account n l],
      users_seq = 2, auth_logs = [], auth_logs_seq = 0\<rparr>"

section \<open>Auxiliary facts\<close>

subsection \<open>Searching a table\<close>

lemma find_map_pres:
  "(\<And>x. P (g x) = P x) \<Longrightarrow> find P (map g xs) = map_option g (find P xs)"
  by (induction xs) auto

lemma find_by_key:
  "distinct (map k xs) \<Longrightarrow> r \<in> set xs \<Longrightarrow> find (\<lambda>x. k x = k r) xs = Some r"
  by (induction xs) (auto simp: rev_image_eqI)

lemma find_Some_mem: "find P xs = Some x \<Longrightarrow> x \<in> set xs \<and> P x"
  by (induction xs) (auto split: if_splits)

lemma find_None_iff_ex: "find P xs = None \<longleftrightarrow> \<not> list_ex P xs"
  by (induction xs) auto

lemma find_conj_Some:
  "find P xs = Some r \<Longrightarrow> Q r \<Longrightarrow> find (\<lambda>x. P x \<and> Q x) xs = Some r"
  by (induction xs) (auto split: if_splits)

lemma find_conj_None:
  "find P xs = None \<Longrightarrow> find (\<lambda>x. P x \<and> Q x) xs = None"
  by (induction xs) (auto split: if_splits)

lemma find_conj_unique:
  assumes "distinct (map k xs)" "find (\<lambda>x. k x = v) xs = Some r" "\<not> Q r"
  shows "find (\<lambda>x. k x = v \<and> Q x) xs = None"
proof -
  have r: "r \<in> set xs" "k r = v" using find_Some_mem [OF assms(2)] by simp_all
  have inj: "inj_on k (set xs)" using assms(1) by (simp add: distinct_map)
  have "x = r" if "x \<in> set xs" "k x = v" for x
    using inj that r by (auto dest: inj_onD)
  then show ?thesis using assms(3) by (auto simp: find_None_iff_ex list_ex_iff)
qed

lemma lookup_user_mem:
  "lookup_user d u = Some r \<Longrightarrow> r \<in> set (users d) \<and> username r = u"
  unfolding lookup_user_def by (drule find_Some_mem) simp

lemma select_active:
  "lookup_user d u = Some r \<Longrightarrow> is_active r \<Longrightarrow>
   find (\<lambda>x. username x = u \<and> is_active x) (users d) = Some r"
  unfolding lookup_user_def by (rule find_conj_Some)

lemma select_absent:
  "lookup_user d u = None \<Longrightarrow> find (\<lambda>x. username x = u \<and> is_active x) (users d) = None"
  unfolding lookup_user_def by (rule find_conj_None)

lemma select_inactive:
  "schema_ok d \<Longrightarrow> lookup_user d u = Some r \<Longrightarrow> \<not> is_active r \<Longrightarrow>
   find (\<lambda>x. username x = u \<and> is_active x) (users d) = None"
  unfolding lookup_user_def schema_ok_def by (blast intro: find_conj_unique)

subsection \<open>The branches of the methods\<close>

lemma users_log [simp]: "users (log_auth_action d i u a s ip ag) = users d"
  by (simp add: log_auth_action_def)

lemma lookup_log [simp]: "lookup_user (log_auth_action d i u a s ip ag) n = lookup_user d n"
  by (simp add: lookup_user_def)

lemma lookup_update_by_id:
  "(\<And>x. username (f x) = username x) \<Longrightarrow>
   lookup_user (update_users_by_id f uid d) u =
     map_option (\<lambda>r. if row_id r = uid then f r else r) (lookup_user d u)"
  unfolding lookup_user_def update_users_by_id_def
  by (simp add: find_map_pres)

lemma find_id_update:
  assumes "\<And>x. row_id (f x) = row_id x" "distinct (map row_id (users d))" "r \<in> set (users d)"
  shows "find (\<lambda>x. row_id x = row_id r) (users (update_users_by_id f (row_id r) d)) = Some (f r)"
proof -
  have "find (\<lambda>x. row_id x = row_id r) (users (update_users_by_id f (row_id r) d)) =
        map_option (\<lambda>x. if row_id x = row_id r then f x else x)
          (find (\<lambda>x. row_id x = row_id r) (users d))"
    unfolding update_users_by_id_def using assms(1) by (simp add: find_map_pres)
  also have "find (\<lambda>x. row_id x = row_id r) (users d) = Some r"
    using assms(2,3) by (rule find_by_key)
  finally show ?thesis by simp
qed

lemma sqlite_add_one_below:
  "n < 2 ^ 63 - 1 \<Longrightarrow> sqlite_add_one n = n + 1"
  by (simp add: sqlite_add_one_def)

lemma sqlite_add_one_saturated:
  "2 ^ 63 - 1 \<le> n \<Longrightarrow> sqlite_add_one n = 2 ^ 63"
  by (simp add: sqlite_add_one_def)

lemma sqlite_add_one_ge:
  "k \<le> n \<Longrightarrow> k \<le> 9223372036854775808 \<Longrightarrow> k \<le> sqlite_add_one n"
  by (simp add: sqlite_add_one_def)

lemma lookup_increment:
  assumes "schema_ok d" "lookup_user d u = Some r"
  shows "lookup_user (increment_login_attempts clk d (row_id r)) u =
         Some (r\<lparr>login_attempts := sqlite_add_one (login_attempts r),
                 locked_until := (if 5 \<le> sqlite_add_one (login_attempts r)
                                  then Some (now_lock clk + timedelta_minutes 30)
                                  else locked_until r)\<rparr>)"
proof -
  let ?f = "\<lambda>r::user_row. r\<lparr>login_attempts := sqlite_add_one (login_attempts r)\<rparr>"
  let ?d1 = "update_users_by_id ?f (row_id r) d"
  have mem: "r \<in> set (users d)" using assms(2) by (simp add: lookup_user_mem)
  have dist: "distinct (map row_id (users d))" using assms(1) by (simp add: schema_ok_def)
  have fnd: "find (\<lambda>x. row_id x = row_id r) (users ?d1) = Some (?f r)"
    using dist mem by (intro find_id_update) simp_all
  have l1: "lookup_user ?d1 u = Some (?f r)"
    using assms(2) by (simp add: lookup_update_by_id)
  show ?thesis
  proof (cases "5 \<le> sqlite_add_one (login_attempts r)")
    case True
    then have "increment_login_attempts clk d (row_id r) =
               update_users_by_id (\<lambda>r. r\<lparr>locked_until := Some (now_lock clk + timedelta_minutes 30)\<rparr>)
                 (row_id r) ?d1"
      using fnd by (simp add: increment_login_attempts_def Let_def)
    then show ?thesis using True by (simp add: lookup_update_by_id l1)
  next
    case False
    then have "increment_login_attempts clk d (row_id r) = ?d1"
      using fnd by (simp add: increment_login_attempts_def Let_def)
    then show ?thesis using False by (simp add: l1)
  qed
qed

lemma authenticate_absent:
  "find (\<lambda>x. username x = u \<and> is_active x) (users d) = None \<Longrightarrow>
   authenticate kdf clk d u p ip ag = (None, log_auth_action d None u ''login'' False ip ag)"
  by (simp add: authenticate_def)

lemma authenticate_locked:
  "lookup_user d u = Some r \<Longrightarrow> is_active r \<Longrightarrow> locked_at (now_check clk) r \<Longrightarrow>
   authenticate kdf clk d u p ip ag =
     (None, log_auth_action d (Some (row_id r)) u ''login_blocked'' False ip ag)"
  by (simp add: authenticate_def select_active locked_at_def)

lemma authenticate_bad:
  "lookup_user d u = Some r \<Longrightarrow> is_active r \<Longrightarrow> \<not> locked_at (now_check clk) r \<Longrightarrow>
   hash_password kdf p (password_salt r) \<noteq> password_hash r \<Longrightarrow>
   authenticate kdf clk d u p ip ag =
     (None, log_auth_action (increment_login_attempts clk d (row_id r)) (Some (row_id r)) u
              ''login'' False ip ag)"
  by (simp add: authenticate_def select_active locked_at_def Let_def)

lemma authenticate_good:
  "lookup_user d u = Some r \<Longrightarrow> is_active r \<Longrightarrow> \<not> locked_at (now_check clk) r \<Longrightarrow>
   hash_password kdf p (password_salt r) = password_hash r \<Longrightarrow>
   authenticate kdf clk d u p ip ag =
     (Some \<lparr>info_id = row_id r, info_username = username r, info_role = role r,
            info_full_name = full_name r, is_admin = (role r = ''admin''),
            permissions = get_user_permissions (role r)\<rparr>,
      log_auth_action (update_last_login clk (reset_login_attempts d (row_id r)) (row_id r))
        (Some (row_id r)) u ''login'' True ip ag)"
  by (simp add: authenticate_def select_active locked_at_def Let_def)

lemma lookup_after_login:
  "lookup_user d u = Some r \<Longrightarrow>
   lookup_user (update_last_login clk (reset_login_attempts d (row_id r)) (row_id r)) u =
     Some (r\<lparr>login_attempts := 0, locked_until := None,
             last_login := Some (current_timestamp clk)\<rparr>)"
  by (simp add: update_last_login_def reset_login_attempts_def lookup_update_by_id)

lemma lookup_user_None_iff: "lookup_user d u = None \<longleftrightarrow> \<not> list_ex (\<lambda>r. username r = u) (users d)"
  by (simp add: lookup_user_def find_None_iff_ex)


lemma create_user_fresh:
  assumes "lookup_user d u = None" "rl \<in> set [''admin'', ''user'']"
  shows "create_user kdf salt d u p rl fn em =
           (True, log_auth_action
              (d\<lparr>users := users d @
                  [\<lparr>row_id = users_seq d + 1, username = u,
                    password_hash = hash_password kdf p salt,
                    password_salt = salt, role = rl, full_name = fn, email = em,
                    is_active = True, last_login = None, login_attempts = 0,
                    locked_until = None\<rparr>],
                users_seq := users_seq d + 1\<rparr>)
              (Some (users_seq d + 1)) u ''create_user'' True None None)"
  using assms by (auto simp: create_user_def insert_user_def lookup_user_None_iff Let_def)


subsection \<open>Evaluating the concrete instances\<close>

lemmas demo_simps = demo_store_def demo_account_def demo_clock_def demo_kdf_def
  lookup_user_def schema_ok_def lockout_ok_def locked_at_def hash_password_def
  timedelta_minutes_def sqlite_add_one_def

section \<open>Account creation and login\<close>



section \<open>Lockout\<close>

text \<open>
  C2. When a failed password check brings the counter of an account to 5, \<open>locked_until\<close>
  is set to the time read in \<open>_increment_login_attempts\<close> plus 30 minutes. While an
  account is locked (\<open>locked_until\<close> is set and lies after the time of the call),
  \<open>authenticate\<close> returns \<open>None\<close> and leaves the table \<open>users\<close>, and with it the
  counter, as it was; its outcome is the same for every password and every hash
  function, so the stored hash is not compared, and the correct password is refused too.
\<close>

theorem lock_at_five_and_refusal_while_locked:
  assumes "schema_ok d" and "lookup_user d u = Some r"
  shows "(is_active r \<and> \<not> locked_at (now_check clk) r \<and>
          hash_password kdf p (password_salt r) \<noteq> password_hash r \<and>
          login_attempts r + 1 = 5 \<longrightarrow>
            lookup_user (snd (authenticate kdf clk d u p ip ag)) u =
              Some (r\<lparr>login_attempts := 5,
                      locked_until := Some (now_lock clk + 30 * 60 * 1000000)\<rparr>)) \<and>
         (locked_at (now_check clk) r \<longrightarrow>
            fst (authenticate kdf clk d u p ip ag) = None \<and>
            users (snd (authenticate kdf clk d u p ip ag)) = users d \<and>
            authenticate kdf clk d u p ip ag = authenticate kdf' clk d u p' ip ag)"
proof (intro conjI impI)
  assume a: "is_active r \<and> \<not> locked_at (now_check clk) r \<and>
          hash_password kdf p (password_salt r) \<noteq> password_hash r \<and>
          login_attempts r + 1 = 5"
  then have "authenticate kdf clk d u p ip ag =
     (None, log_auth_action (increment_login_attempts clk d (row_id r)) (Some (row_id r)) u
              ''login'' False ip ag)"
    using assms(2) by (intro authenticate_bad) simp_all
  then show "lookup_user (snd (authenticate kdf clk d u p ip ag)) u =
              Some (r\<lparr>login_attempts := 5,
                      locked_until := Some (now_lock clk + 30 * 60 * 1000000)\<rparr>)"
  proof -
    have five: "sqlite_add_one (login_attempts r) = 5"
      using a by (simp add: sqlite_add_one_def)
    assume "authenticate kdf clk d u p ip ag =
       (None, log_auth_action (increment_login_attempts clk d (row_id r)) (Some (row_id r)) u
                ''login'' False ip ag)"
    then show ?thesis
      using lookup_increment [OF assms, of clk] by (simp add: five timedelta_minutes_def)
  qed
next
  assume l: "locked_at (now_check clk) r"
  have eq: "authenticate k clk d u q ip ag =
        (None, log_auth_action d (if is_active r then Some (row_id r) else None) u
                 (if is_active r then ''login_blocked'' else ''login'') False ip ag)" for k q
  proof (cases "is_active r")
    case True
    then show ?thesis using authenticate_locked [OF assms(2) True l] by simp
  next
    case False
    then show ?thesis
      using authenticate_absent [OF select_inactive [OF assms False]] by simp
  qed
  show "fst (authenticate kdf clk d u p ip ag) = None" by (simp add: eq)
  show "users (snd (authenticate kdf clk d u p ip ag)) = users d" by (simp add: eq)
  show "authenticate kdf clk d u p ip ag = authenticate kdf' clk d u p' ip ag"
    by (simp add: eq)
qed

theorem lock_at_five_and_refusal_while_locked_witness:
  "schema_ok (demo_store 4 None) \<and>
   lookup_user (demo_store 4 None) ''u1'' = Some (demo_account 4 None) \<and>
   lookup_user (snd (authenticate demo_kdf demo_clock (demo_store 4 None) ''u1'' ''wrong''
                       None None)) ''u1'' =
     Some (demo_account 5 (Some 1800001001)) \<and>
   schema_ok (demo_store 5 (Some 1800001001)) \<and>
   lookup_user (demo_store 5 (Some 1800001001)) ''u1'' = Some (demo_account 5 (Some 1800001001)) \<and>
   locked_at (now_check demo_clock) (demo_account 5 (Some 1800001001)) \<and>
   fst (authenticate demo_kdf demo_clock (demo_store 5 (Some 1800001001)) ''u1'' ''Secret2''
          None None) = None \<and>
   users (snd (authenticate demo_kdf demo_clock (demo_store 5 (Some 1800001001)) ''u1''
                 ''Secret2'' None None)) = users (demo_store 5 (Some 1800001001))"
proof -
  have a1: "schema_ok (demo_store 4 None)" by (simp add: demo_simps)
  have a2: "lookup_user (demo_store 4 None) ''u1'' = Some (demo_account 4 None)"
    by (simp add: demo_simps)
  have b1: "schema_ok (demo_store 5 (Some 1800001001))" by (simp add: demo_simps)
  have b2: "lookup_user (demo_store 5 (Some 1800001001)) ''u1'' =
              Some (demo_account 5 (Some 1800001001))"
    by (simp add: demo_simps)
  have b3: "locked_at (now_check demo_clock) (demo_account 5 (Some 1800001001))"
    by (simp add: demo_simps)
  have c: "is_active (demo_account 4 None) \<and>
           \<not> locked_at (now_check demo_clock) (demo_account 4 None) \<and>
           hash_password demo_kdf ''wrong'' (password_salt (demo_account 4 None)) \<noteq>
             password_hash (demo_account 4 None) \<and>
           login_attempts (demo_account 4 None) + 1 = 5"
    by (simp add: demo_simps)
  have e: "demo_account 4 None\<lparr>login_attempts := 5,
             locked_until := Some (now_lock demo_clock + 30 * 60 * 1000000)\<rparr> =
           demo_account 5 (Some 1800001001)"
    by (simp add: demo_simps)
  show ?thesis
    using lock_at_five_and_refusal_while_locked [OF a1 a2, of demo_clock demo_kdf "''wrong''"
        None None demo_kdf "''wrong''"]
      lock_at_five_and_refusal_while_locked [OF b1 b2, of demo_clock demo_kdf "''Secret2''"
        None None demo_kdf "''Secret2''"]
      a1 a2 b1 b2 b3 c e
    by simp
qed

lemma lockout_ok_row:
  "lockout_ok d \<Longrightarrow> lookup_user d u = Some r \<Longrightarrow>
   0 \<le> login_attempts r \<and> (locked_until r \<noteq> None \<longrightarrow> 5 \<le> login_attempts r)"
  unfolding lockout_ok_def list_all_iff by (drule lookup_user_mem) blast

text \<open>
  C3. For an existing, active account that is not locked at the time of the call,
  \<open>authenticate\<close> with a wrong password returns \<open>None\<close> and raises the counter of the
  account by exactly 1; when the new counter is below 5, \<open>locked_until\<close> of the account
  is unset afterwards. The counter is one that the 64-bit column can still count up:
  it is below \<open>2^63 - 1\<close>.
\<close>

theorem wrong_password_counts_one:
  assumes "schema_ok d" and "lockout_ok d" and "lookup_user d u = Some r" and "is_active r"
    and "\<not> locked_at (now_check clk) r"
    and "hash_password kdf p (password_salt r) \<noteq> password_hash r"
    and "login_attempts r < 2 ^ 63 - 1"
  shows "fst (authenticate kdf clk d u p ip ag) = None \<and>
         map_option login_attempts (lookup_user (snd (authenticate kdf clk d u p ip ag)) u) =
           Some (login_attempts r + 1) \<and>
         (login_attempts r + 1 < 5 \<longrightarrow>
            map_option locked_until (lookup_user (snd (authenticate kdf clk d u p ip ag)) u) =
              Some None)"
proof -
  have au: "authenticate kdf clk d u p ip ag =
     (None, log_auth_action (increment_login_attempts clk d (row_id r)) (Some (row_id r)) u
              ''login'' False ip ag)"
    using assms(3-6) by (rule authenticate_bad)
  have unset: "locked_until r = None" if "login_attempts r + 1 < 5"
    using lockout_ok_row [OF assms(2,3)] that by (cases "locked_until r") auto
  have inc: "sqlite_add_one (login_attempts r) = login_attempts r + 1"
    using assms(7) by (rule sqlite_add_one_below)
  show ?thesis
    using lookup_increment [OF assms(1,3), of clk] unset by (simp add: au inc)
qed

theorem wrong_password_counts_one_witness:
  "schema_ok (demo_store 2 None) \<and> lockout_ok (demo_store 2 None) \<and>
   lookup_user (demo_store 2 None) ''u1'' = Some (demo_account 2 None) \<and>
   is_active (demo_account 2 None) \<and>
   \<not> locked_at (now_check demo_clock) (demo_account 2 None) \<and>
   hash_password demo_kdf ''wrong'' (password_salt (demo_account 2 None)) \<noteq>
     password_hash (demo_account 2 None) \<and>
   login_attempts (demo_account 2 None) < 2 ^ 63 - 1 \<and>
   fst (authenticate demo_kdf demo_clock (demo_store 2 None) ''u1'' ''wrong'' None None) = None \<and>
   map_option login_attempts
     (lookup_user (snd (authenticate demo_kdf demo_clock (demo_store 2 None) ''u1'' ''wrong''
                          None None)) ''u1'') = Some 3 \<and>
   map_option locked_until
     (lookup_user (snd (authenticate demo_kdf demo_clock (demo_store 2 None) ''u1'' ''wrong''
                          None None)) ''u1'') = Some None"
proof -
  have h: "schema_ok (demo_store 2 None)" "lockout_ok (demo_store 2 None)"
    "lookup_user (demo_store 2 None) ''u1'' = Some (demo_account 2 None)"
    "is_active (demo_account 2 None)"
    "\<not> locked_at (now_check demo_clock) (demo_account 2 None)"
    "hash_password demo_kdf ''wrong'' (password_salt (demo_account 2 None)) \<noteq>
       password_hash (demo_account 2 None)"
    "login_attempts (demo_account 2 None) < 2 ^ 63 - 1"
    by (simp_all add: demo_simps)
  have n: "login_attempts (demo_account 2 None) = 2" by (simp add: demo_simps)
  show ?thesis
    using wrong_password_counts_one [OF h, of None None] h by (simp add: n)
qed

text \<open>
  C10. Once the lock of an account has expired (\<open>locked_until\<close> is set, the time of the
  call is not before it, the counter is 5 or more and below \<open>2^63 - 1\<close>, so that the
  64-bit column can still count it up), one more \<open>authenticate\<close> with a wrong
  password raises the counter to 6 or more and sets \<open>locked_until\<close> to the time read in
  \<open>_increment_login_attempts\<close> plus 30 minutes: the account is locked again at once.
\<close>

theorem relock_after_expired_lock:
  assumes "schema_ok d" and "lookup_user d u = Some r" and "is_active r"
    and "locked_until r = Some t" and "t \<le> now_check clk" and "5 \<le> login_attempts r"
    and "hash_password kdf p (password_salt r) \<noteq> password_hash r"
    and "login_attempts r < 2 ^ 63 - 1"
  shows "fst (authenticate kdf clk d u p ip ag) = None \<and>
         lookup_user (snd (authenticate kdf clk d u p ip ag)) u =
           Some (r\<lparr>login_attempts := login_attempts r + 1,
                   locked_until := Some (now_lock clk + 30 * 60 * 1000000)\<rparr>) \<and>
         6 \<le> login_attempts r + 1"
proof -
  have nl: "\<not> locked_at (now_check clk) r"
    using assms(4,5) by (simp add: locked_at_def)
  have au: "authenticate kdf clk d u p ip ag =
     (None, log_auth_action (increment_login_attempts clk d (row_id r)) (Some (row_id r)) u
              ''login'' False ip ag)"
    using assms(2,3) nl assms(7) by (rule authenticate_bad)
  have inc: "sqlite_add_one (login_attempts r) = login_attempts r + 1"
    using assms(8) by (rule sqlite_add_one_below)
  show ?thesis
    using lookup_increment [OF assms(1,2), of clk] assms(6)
    by (simp add: au inc timedelta_minutes_def)
qed

theorem relock_after_expired_lock_witness:
  "schema_ok (demo_store 5 (Some 900)) \<and>
   lookup_user (demo_store 5 (Some 900)) ''u1'' = Some (demo_account 5 (Some 900)) \<and>
   is_active (demo_account 5 (Some 900)) \<and>
   locked_until (demo_account 5 (Some 900)) = Some 900 \<and> 900 \<le> now_check demo_clock \<and>
   5 \<le> login_attempts (demo_account 5 (Some 900)) \<and>
   hash_password demo_kdf ''wrong'' (password_salt (demo_account 5 (Some 900))) \<noteq>
     password_hash (demo_account 5 (Some 900)) \<and>
   login_attempts (demo_account 5 (Some 900)) < 2 ^ 63 - 1 \<and>
   fst (authenticate demo_kdf demo_clock (demo_store 5 (Some 900)) ''u1'' ''wrong'' None None) =
     None \<and>
   lookup_user (snd (authenticate demo_kdf demo_clock (demo_store 5 (Some 900)) ''u1''
                       ''wrong'' None None)) ''u1'' =
     Some (demo_account 6 (Some 1800001001))"
proof -
  have h: "schema_ok (demo_store 5 (Some 900))"
    "lookup_user (demo_store 5 (Some 900)) ''u1'' = Some (demo_account 5 (Some 900))"
    "is_active (demo_account 5 (Some 900))"
    "locked_until (demo_account 5 (Some 900)) = Some 900" "900 \<le> now_check demo_clock"
    "5 \<le> login_attempts (demo_account 5 (Some 900))"
    "hash_password demo_kdf ''wrong'' (password_salt (demo_account 5 (Some 900))) \<noteq>
       password_hash (demo_account 5 (Some 900))"
    "login_attempts (demo_account 5 (Some 900)) < 2 ^ 63 - 1"
    by (simp_all add: demo_simps)
  have e: "demo_account 5 (Some 900)\<lparr>login_attempts := login_attempts (demo_account 5 (Some 900)) + 1,
             locked_until := Some (now_lock demo_clock + 30 * 60 * 1000000)\<rparr> =
           demo_account 6 (Some 1800001001)"
    by (simp add: demo_simps)
  show ?thesis
    using relock_after_expired_lock [OF h, of None None] h e by simp
qed

text \<open>
  C4. Whenever \<open>authenticate\<close> succeeds, the account has afterwards a counter of 0, no
  \<open>locked_until\<close>, and \<open>last_login\<close> set to the current timestamp, whatever counter and
  lock time it had before. In particular, for an active account whose lock time has
  passed, \<open>authenticate\<close> with the correct password succeeds.
\<close>

theorem success_resets_lockout:
  assumes "schema_ok d" and "lookup_user d u = Some r"
  shows "(fst (authenticate kdf clk d u p ip ag) \<noteq> None \<longrightarrow>
            lookup_user (snd (authenticate kdf clk d u p ip ag)) u =
              Some (r\<lparr>login_attempts := 0, locked_until := None,
                      last_login := Some (current_timestamp clk)\<rparr>)) \<and>
         (is_active r \<and> \<not> locked_at (now_check clk) r \<and>
          hash_password kdf p (password_salt r) = password_hash r \<longrightarrow>
            fst (authenticate kdf clk d u p ip ag) \<noteq> None)"
proof (cases "is_active r \<and> \<not> locked_at (now_check clk) r \<and>
          hash_password kdf p (password_salt r) = password_hash r")
  case True
  then have "authenticate kdf clk d u p ip ag =
     (Some \<lparr>info_id = row_id r, info_username = username r, info_role = role r,
            info_full_name = full_name r, is_admin = (role r = ''admin''),
            permissions = get_user_permissions (role r)\<rparr>,
      log_auth_action (update_last_login clk (reset_login_attempts d (row_id r)) (row_id r))
        (Some (row_id r)) u ''login'' True ip ag)"
    using assms(2) by (intro authenticate_good) simp_all
  then show ?thesis
    using lookup_after_login [OF assms(2), of clk] by simp
next
  case False
  have "fst (authenticate kdf clk d u p ip ag) = None"
  proof (cases "is_active r")
    case inactive: False
    show ?thesis
      using authenticate_absent [OF select_inactive [OF assms inactive]] by simp
  next
    case active: True
    show ?thesis
    proof (cases "locked_at (now_check clk) r")
      case True
      then show ?thesis using authenticate_locked [OF assms(2) active] by simp
    next
      case unlocked: False
      then have "hash_password kdf p (password_salt r) \<noteq> password_hash r"
        using False active by simp
      then show ?thesis using authenticate_bad [OF assms(2) active unlocked] by simp
    qed
  qed
  then show ?thesis using False by simp
qed

theorem success_resets_lockout_witness:
  "schema_ok (demo_store 7 (Some 900)) \<and>
   lookup_user (demo_store 7 (Some 900)) ''u1'' = Some (demo_account 7 (Some 900)) \<and>
   is_active (demo_account 7 (Some 900)) \<and>
   \<not> locked_at (now_check demo_clock) (demo_account 7 (Some 900)) \<and>
   hash_password demo_kdf ''Secret2'' (password_salt (demo_account 7 (Some 900))) =
     password_hash (demo_account 7 (Some 900)) \<and>
   fst (authenticate demo_kdf demo_clock (demo_store 7 (Some 900)) ''u1'' ''Secret2''
          None None) \<noteq> None \<and>
   lookup_user (snd (authenticate demo_kdf demo_clock (demo_store 7 (Some 900)) ''u1''
                       ''Secret2'' None None)) ''u1'' =
     Some ((demo_account 0 None)\<lparr>last_login := Some 1002\<rparr>)"
proof -
  have h: "schema_ok (demo_store 7 (Some 900))"
    "lookup_user (demo_store 7 (Some 900)) ''u1'' = Some (demo_account 7 (Some 900))"
    by (simp_all add: demo_simps)
  have c: "is_active (demo_account 7 (Some 900))"
    "\<not> locked_at (now_check demo_clock) (demo_account 7 (Some 900))"
    "hash_password demo_kdf ''Secret2'' (password_salt (demo_account 7 (Some 900))) =
       password_hash (demo_account 7 (Some 900))"
    by (simp_all add: demo_simps)
  have e: "demo_account 7 (Some 900)\<lparr>login_attempts := 0, locked_until := None,
             last_login := Some (current_timestamp demo_clock)\<rparr> =
           (demo_account 0 None)\<lparr>last_login := Some 1002\<rparr>"
    by (simp add: demo_simps)
  show ?thesis
    using success_resets_lockout [OF h, of demo_kdf demo_clock "''Secret2''" None None] h c
    by (simp add: e)
qed

section \<open>Failures and what they leave behind\<close>

lemma authenticate_cases:
  assumes "schema_ok d" and "lookup_user d u = Some r"
  shows "authenticate kdf clk d u p ip ag =
     (if \<not> is_active r then
        (None, log_auth_action d None u ''login'' False ip ag)
      else if locked_at (now_check clk) r then
        (None, log_auth_action d (Some (row_id r)) u ''login_blocked'' False ip ag)
      else if hash_password kdf p (password_salt r) = password_hash r then
        (Some \<lparr>info_id = row_id r, info_username = username r, info_role = role r,
               info_full_name = full_name r, is_admin = (role r = ''admin''),
               permissions = get_user_permissions (role r)\<rparr>,
         log_auth_action (update_last_login clk (reset_login_attempts d (row_id r)) (row_id r))
           (Some (row_id r)) u ''login'' True ip ag)
      else
        (None, log_auth_action (increment_login_attempts clk d (row_id r)) (Some (row_id r)) u
                 ''login'' False ip ag))"
  using authenticate_absent [OF select_inactive [OF assms], of kdf clk p ip ag]
    authenticate_locked [OF assms(2), of clk kdf p ip ag]
    authenticate_good [OF assms(2), of clk kdf p ip ag]
    authenticate_bad [OF assms(2), of clk kdf p ip ag]
  by auto

lemma authenticate_mismatch_row:
  assumes "schema_ok d" and "lookup_user d u = Some r"
    and "hash_password kdf p (password_salt r) \<noteq> password_hash r"
  shows "fst (authenticate kdf clk d u p ip ag) = None \<and>
         (\<exists>r'. lookup_user (snd (authenticate kdf clk d u p ip ag)) u = Some r' \<and>
               password_hash r' = password_hash r \<and> password_salt r' = password_salt r \<and>
               is_active r' = is_active r)"
  using lookup_increment [OF assms(1,2), of clk] assms(2,3)
  by (simp add: authenticate_cases [OF assms(1,2)])

lemma lookup_delete: "lookup_user (d\<lparr>users := filter (\<lambda>r. username r \<noteq> u) (users d)\<rparr>) u = None"
  by (simp add: lookup_user_def find_None_iff_ex list_ex_iff)

lemma delete_user_existing:
  assumes "lookup_user d u = Some r"
  shows "delete_user d u = (True, d\<lparr>users := filter (\<lambda>r. username r \<noteq> u) (users d)\<rparr>)"
proof -
  have "r \<in> set (filter (\<lambda>r. username r = u) (users d))"
    using lookup_user_mem [OF assms] by simp
  then have "0 < length (filter (\<lambda>r. username r = u) (users d))"
    by (rule length_pos_if_in_set)
  then show ?thesis by (simp add: delete_user_def Let_def)
qed

text \<open>
  C5. \<open>authenticate\<close> returns the same value, \<open>None\<close>, for a username that resolves to
  no account (no row, or a row that is not active) and for an existing account given a
  password whose hash differs from the stored one. After \<open>delete_user\<close> has removed an
  account, \<open>authenticate\<close> for its username does what it does for a username that never
  had a row: it returns \<open>None\<close> and logs a failed \<open>login\<close> without a user id.
\<close>

theorem generic_failure:
  assumes "schema_ok d1"
    and "lookup_user d1 u1 = None \<or> map_option is_active (lookup_user d1 u1) = Some False"
    and "schema_ok d2" and "lookup_user d2 u2 = Some r"
    and "hash_password kdf p2 (password_salt r) \<noteq> password_hash r"
  shows "authenticate kdf clk1 d1 u1 p1 ip ag =
           (None, log_auth_action d1 None u1 ''login'' False ip ag) \<and>
         fst (authenticate kdf clk2 d2 u2 p2 ip ag) = None \<and>
         fst (authenticate kdf clk1 d1 u1 p1 ip ag) = fst (authenticate kdf clk2 d2 u2 p2 ip ag) \<and>
         fst (delete_user d2 u2) = True \<and>
         lookup_user (snd (delete_user d2 u2)) u2 = None \<and>
         authenticate kdf clk3 (snd (delete_user d2 u2)) u2 p3 ip ag =
           (None, log_auth_action (snd (delete_user d2 u2)) None u2 ''login'' False ip ag)"
proof -
  have a: "authenticate kdf clk1 d1 u1 p1 ip ag =
           (None, log_auth_action d1 None u1 ''login'' False ip ag)"
  proof (cases "lookup_user d1 u1")
    case None
    then show ?thesis by (intro authenticate_absent select_absent)
  next
    case (Some r1)
    then have "\<not> is_active r1" using assms(2) by simp
    then show ?thesis
      by (intro authenticate_absent select_inactive [OF assms(1) Some])
  qed
  have b: "fst (authenticate kdf clk2 d2 u2 p2 ip ag) = None"
    using authenticate_mismatch_row [OF assms(3,4,5)] by simp
  have c: "delete_user d2 u2 = (True, d2\<lparr>users := filter (\<lambda>r. username r \<noteq> u2) (users d2)\<rparr>)"
    using assms(4) by (rule delete_user_existing)
  have d: "lookup_user (snd (delete_user d2 u2)) u2 = None"
    by (simp add: c lookup_delete)
  have e: "authenticate kdf clk3 (snd (delete_user d2 u2)) u2 p3 ip ag =
           (None, log_auth_action (snd (delete_user d2 u2)) None u2 ''login'' False ip ag)"
    using d by (intro authenticate_absent select_absent)
  show ?thesis using a b c d e by simp
qed

theorem generic_failure_witness:
  "schema_ok (demo_store 0 None) \<and> lookup_user (demo_store 0 None) ''ghost'' = None \<and>
   lookup_user (demo_store 0 None) ''u1'' = Some (demo_account 0 None) \<and>
   hash_password demo_kdf ''wrong'' (password_salt (demo_account 0 None)) \<noteq>
     password_hash (demo_account 0 None) \<and>
   fst (authenticate demo_kdf demo_clock (demo_store 0 None) ''ghost'' ''Secret2'' None None) =
     None \<and>
   fst (authenticate demo_kdf demo_clock (demo_store 0 None) ''u1'' ''wrong'' None None) = None \<and>
   fst (delete_user (demo_store 0 None) ''u1'') = True \<and>
   fst (authenticate demo_kdf demo_clock (snd (delete_user (demo_store 0 None) ''u1'')) ''u1''
          ''Secret2'' None None) = None"
proof -
  have h: "schema_ok (demo_store 0 None)" by (simp add: demo_simps)
  have g: "lookup_user (demo_store 0 None) ''ghost'' = None" by (simp add: demo_simps)
  have l: "lookup_user (demo_store 0 None) ''u1'' = Some (demo_account 0 None)"
    by (simp add: demo_simps)
  have m: "hash_password demo_kdf ''wrong'' (password_salt (demo_account 0 None)) \<noteq>
     password_hash (demo_account 0 None)"
    by (simp add: demo_simps)
  show ?thesis
    using generic_failure [OF h disjI1 [OF g] h l m, of demo_clock "''Secret2''" None None
        demo_clock demo_clock "''Secret2''"] h g l m
    by simp
qed

text \<open>
  C6. \<open>change_password\<close> with an old password whose hash differs from the stored one
  returns \<open>False\<close> and leaves \<open>password_hash\<close> and \<open>password_salt\<close> of the account as
  they were; if the account is active and not locked at the time of the next call,
  \<open>authenticate\<close> with the old password succeeds.
\<close>

theorem failed_change_keeps_password:
  assumes "schema_ok d" and "lookup_user d u = Some r"
    and "hash_password kdf wrong (password_salt r) \<noteq> password_hash r"
  shows "fst (change_password kdf clk salt d u wrong new) = False \<and>
         map_option password_hash (lookup_user (snd (change_password kdf clk salt d u wrong new)) u) =
           Some (password_hash r) \<and>
         map_option password_salt (lookup_user (snd (change_password kdf clk salt d u wrong new)) u) =
           Some (password_salt r) \<and>
         (is_active r \<and>
          map_option (locked_at (now_check clk'))
            (lookup_user (snd (change_password kdf clk salt d u wrong new)) u) = Some False \<and>
          hash_password kdf p (password_salt r) = password_hash r \<longrightarrow>
            fst (authenticate kdf clk' (snd (change_password kdf clk salt d u wrong new)) u p ip ag)
              \<noteq> None)"
proof -
  let ?a = "authenticate kdf clk d u wrong None None"
  obtain r' where f: "fst ?a = None" and l: "lookup_user (snd ?a) u = Some r'"
    and k: "password_hash r' = password_hash r" "password_salt r' = password_salt r"
      "is_active r' = is_active r"
    using authenticate_mismatch_row [OF assms, of clk None None] by blast
  have cp: "change_password kdf clk salt d u wrong new = (False, snd ?a)"
    using f by (cases ?a) (simp add: change_password_def)
  have "fst (authenticate kdf clk' (snd ?a) u p ip ag) \<noteq> None"
    if "is_active r" "\<not> locked_at (now_check clk') r'"
      "hash_password kdf p (password_salt r) = password_hash r"
    using authenticate_good [OF l, of clk' kdf p ip ag] that k by simp
  then show ?thesis using l k by (simp add: cp)
qed

theorem failed_change_keeps_password_witness:
  "schema_ok (demo_store 0 None) \<and>
   lookup_user (demo_store 0 None) ''u1'' = Some (demo_account 0 None) \<and>
   hash_password demo_kdf ''wrong'' (password_salt (demo_account 0 None)) \<noteq>
     password_hash (demo_account 0 None) \<and>
   fst (change_password demo_kdf demo_clock ''s3'' (demo_store 0 None) ''u1'' ''wrong'' ''new'') =
     False \<and>
   lookup_user (snd (change_password demo_kdf demo_clock ''s3'' (demo_store 0 None) ''u1''
                       ''wrong'' ''new'')) ''u1'' = Some (demo_account 1 None) \<and>
   fst (authenticate demo_kdf demo_clock
          (snd (change_password demo_kdf demo_clock ''s3'' (demo_store 0 None) ''u1''
                  ''wrong'' ''new'')) ''u1'' ''Secret2'' None None) \<noteq> None"
proof -
  have h: "schema_ok (demo_store 0 None)"
    "lookup_user (demo_store 0 None) ''u1'' = Some (demo_account 0 None)"
    "hash_password demo_kdf ''wrong'' (password_salt (demo_account 0 None)) \<noteq>
       password_hash (demo_account 0 None)"
    by (simp_all add: demo_simps)
  have au: "authenticate demo_kdf demo_clock (demo_store 0 None) ''u1'' ''wrong'' None None =
     (None, log_auth_action (increment_login_attempts demo_clock (demo_store 0 None) 2) (Some 2)
              ''u1'' ''login'' False None None)"
    using authenticate_bad [OF h(2), of demo_clock demo_kdf "''wrong''" None None] h(3)
    by (simp add: demo_simps)
  have l: "lookup_user (snd (change_password demo_kdf demo_clock ''s3'' (demo_store 0 None) ''u1''
                       ''wrong'' ''new'')) ''u1'' = Some (demo_account 1 None)"
    using lookup_increment [OF h(1,2), of demo_clock]
    by (simp add: change_password_def au) (simp add: demo_simps)
  have c: "is_active (demo_account 0 None)"
    "locked_at (now_check demo_clock) (demo_account 1 None) = False"
    "hash_password demo_kdf ''Secret2'' (password_salt (demo_account 0 None)) =
       password_hash (demo_account 0 None)"
    by (simp_all add: demo_simps)
  show ?thesis
    using failed_change_keeps_password [OF h, of demo_clock "''s3''" "''new''" demo_clock
        "''Secret2''" None None] h l c
    by simp
qed

section \<open>Audit entries on failure\<close>




lemma auth_logs_update_by_id [simp]:
  "auth_logs (update_users_by_id f i d) = auth_logs d"
  "auth_logs_seq (update_users_by_id f i d) = auth_logs_seq d"
  by (simp_all add: update_users_by_id_def)

lemma auth_logs_increment [simp]:
  "auth_logs (increment_login_attempts clk d i) = auth_logs d"
  "auth_logs_seq (increment_login_attempts clk d i) = auth_logs_seq d"
  by (simp_all add: increment_login_attempts_def Let_def split: option.splits)

lemma auth_logs_login [simp]:
  "auth_logs (update_last_login clk (reset_login_attempts d i) j) = auth_logs d"
  "auth_logs_seq (update_last_login clk (reset_login_attempts d i) j) = auth_logs_seq d"
  by (simp_all add: update_last_login_def reset_login_attempts_def)





section \<open>Role validation\<close>

lemma username_fold_assign: "username (fold assign ks r) = username r"
proof (induction ks arbitrary: r)
  case Nil
  show ?case by simp
next
  case (Cons k ks)
  then show ?case by (cases k) simp_all
qed

lemma role_fold_assign_other:
  "\<forall>k\<in>set ks. field k \<noteq> ''role'' \<Longrightarrow> role (fold assign ks r) = role r"
proof (induction ks arbitrary: r)
  case Nil
  show ?case by simp
next
  case (Cons k ks)
  then show ?case by (cases k) simp_all
qed

lemma role_fold_assign:
  "distinct (map field ks) \<Longrightarrow> Kw_role rl \<in> set ks \<Longrightarrow> role (fold assign ks r) = rl"
proof (induction ks arbitrary: r)
  case Nil
  then show ?case by simp
next
  case (Cons k ks)
  show ?case
  proof (cases "k = Kw_role rl")
    case True
    then have "\<forall>k'\<in>set ks. field k' \<noteq> ''role''"
      using Cons.prems(1) by (auto simp: image_iff)
    then show ?thesis using True by (simp add: role_fold_assign_other)
  next
    case False
    then show ?thesis using Cons by simp
  qed
qed

lemma update_users_by_name_absent:
  "lookup_user d u = None \<Longrightarrow> update_users_by_name f u d = d"
proof -
  assume "lookup_user d u = None"
  then have "\<forall>r\<in>set (users d). username r \<noteq> u"
    by (simp add: lookup_user_None_iff list_ex_iff)
  then have "map (\<lambda>r. if username r = u then f r else r) (users d) = users d"
    by (simp add: map_idI)
  then show ?thesis by (simp add: update_users_by_name_def)
qed

text \<open>
  C9 (as the code has it). With a role outside \<open>admin\<close> and \<open>user\<close>, \<open>create_user\<close>
  returns \<open>False\<close> and writes nothing. \<open>update_user\<close> with such a role among its keywords
  never changes the database, whatever other keywords come with it, and it returns
  \<open>False\<close> whenever the username has a row: the role is not checked in Python, the
  CHECK constraint of the column rejects the row the statement would write.
\<close>

theorem invalid_role_no_mutation:
  assumes "rl \<notin> set [''admin'', ''user'']" and "Kw_role rl \<in> set kwargs"
    and "distinct (map field kwargs)"
  shows "create_user kdf salt d u p rl fn em = (False, d) \<and>
         snd (update_user d u kwargs) = d \<and>
         (lookup_user d u \<noteq> None \<longrightarrow> fst (update_user d u kwargs) = False)"
proof -
  define uf where
    "uf = filter (\<lambda>kw. field kw \<in> set [''full_name'', ''email'', ''role'', ''is_active''])
            kwargs"
  have upd: "update_user d u kwargs =
               (if uf = [] then (False, d)
                else case update_users_set d uf u of
                       Inl IntegrityError \<Rightarrow> (False, d)
                     | Inr d1 \<Rightarrow> (True, d1))"
    by (simp only: update_user_def Let_def uf_def)
  have mem: "Kw_role rl \<in> set uf" using assms(2) by (simp add: uf_def)
  then have ne: "uf \<noteq> []" by (metis empty_iff list.set(1))
  have dist: "distinct (map field uf)"
    unfolding uf_def using assms(3) by (rule distinct_map_filter)
  have bad: "role (fold assign uf r) \<notin> set [''admin'', ''user'']" for r
    using role_fold_assign [OF dist mem] assms(1) by simp
  have "update_user d u kwargs = (lookup_user d u = None, d)"
  proof (cases "lookup_user d u")
    case None
    then have "\<not> list_ex (\<lambda>r. username r = u \<and>
                 role (fold assign uf r) \<notin> set [''admin'', ''user'']) (users d)"
      by (simp add: lookup_user_None_iff list_ex_iff)
    then have "update_users_set d uf u = Inr d"
      using None by (simp add: update_users_set_def update_users_by_name_absent Let_def)
    then show ?thesis using ne None by (simp add: upd)
  next
    case (Some r)
    then have "r \<in> set (users d) \<and> username r = u" by (rule lookup_user_mem)
    then have "list_ex (\<lambda>r. username r = u \<and>
                 role (fold assign uf r) \<notin> set [''admin'', ''user'']) (users d)"
      using bad unfolding list_ex_iff by blast
    then have "update_users_set d uf u = Inl IntegrityError"
      by (simp add: update_users_set_def Let_def)
    then show ?thesis using ne Some by (simp add: upd)
  qed
  moreover have "create_user kdf salt d u p rl fn em = (False, d)"
    using assms(1) by (simp add: create_user_def)
  ultimately show ?thesis by simp
qed

theorem invalid_role_no_mutation_witness:
  "''root'' \<notin> set [''admin'', ''user''] \<and>
   Kw_role ''root'' \<in> set [Kw_full_name (Some ''Mallory''), Kw_role ''root''] \<and>
   distinct (map field [Kw_full_name (Some ''Mallory''), Kw_role ''root'']) \<and>
   lookup_user (demo_store 0 None) ''u1'' \<noteq> None \<and>
   create_user demo_kdf ''s3'' (demo_store 0 None) ''u9'' ''Secret9'' ''root'' None None =
     (False, demo_store 0 None) \<and>
   update_user (demo_store 0 None) ''u1'' [Kw_full_name (Some ''Mallory''), Kw_role ''root''] =
     (False, demo_store 0 None)"
proof -
  have h: "''root'' \<notin> set [''admin'', ''user'']"
    "Kw_role ''root'' \<in> set [Kw_full_name (Some ''Mallory''), Kw_role ''root'']"
    "distinct (map field [Kw_full_name (Some ''Mallory''), Kw_role ''root''])"
    by simp_all
  have l: "lookup_user (demo_store 0 None) ''u1'' \<noteq> None" by (simp add: demo_simps)
  show ?thesis
    using invalid_role_no_mutation [OF h, of demo_kdf "''s3''" "demo_store 0 None" "''u9''"
        "''Secret9''" None None]
      invalid_role_no_mutation [OF h, of demo_kdf "''s3''" "demo_store 0 None" "''u1''"
        "''Secret9''" None None] h l
    by (simp add: prod_eq_iff)
qed

text \<open>
  The claim C9 as stated has every \<open>update_user\<close> call with such a role return failure;
  for a username without a row the statement writes nothing, no constraint is checked,
  and the call returns \<open>True\<close>.
\<close>

theorem invalid_role_update_of_absent_user_succeeds:
  "lookup_user (demo_store 0 None) ''ghost'' = None \<and>
   update_user (demo_store 0 None) ''ghost'' [Kw_role ''root''] = (True, demo_store 0 None)"
  by (simp add: update_user_def update_users_set_def update_users_by_name_def demo_simps)

section \<open>The hypotheses hold in every database the methods produce\<close>

text \<open>
  \<open>schema_ok\<close> and \<open>lockout_ok\<close> hold of the empty database and are kept by every public
  method, so they hold of every database reached through \<open>AuthSystem\<close>.
\<close>

lemma invariants_empty: "schema_ok empty_db \<and> lockout_ok empty_db"
  by (simp add: schema_ok_def lockout_ok_def empty_db_def)

lemma schema_ok_log [simp]: "schema_ok (log_auth_action d i u a s ip ag) = schema_ok d"
  by (simp add: schema_ok_def log_auth_action_def)

lemma lockout_ok_log [simp]: "lockout_ok (log_auth_action d i u a s ip ag) = lockout_ok d"
  by (simp add: lockout_ok_def)

lemma list_all_map_pres:
  "(\<And>x. x \<in> set xs \<Longrightarrow> P x \<Longrightarrow> P (g x)) \<Longrightarrow> list_all P xs \<Longrightarrow> list_all P (map g xs)"
  by (simp add: list_all_iff)

lemma schema_ok_update:
  assumes "\<And>r. row_id (g r) = row_id r \<and> username (g r) = username r"
    and "\<And>r. r \<in> set (users d) \<Longrightarrow> role r \<in> set [''admin'', ''user''] \<Longrightarrow>
              role (g r) \<in> set [''admin'', ''user'']"
    and "schema_ok d"
  shows "schema_ok (d\<lparr>users := map g (users d)\<rparr>)"
proof -
  have i: "map (row_id \<circ> g) (users d) = map row_id (users d)"
    and n: "map (username \<circ> g) (users d) = map username (users d)"
    using assms(1) by simp_all
  have "list_all (\<lambda>r. row_id r \<le> users_seq d \<and> role r \<in> set [''admin'', ''user''])
          (map g (users d))"
  proof (rule list_all_map_pres)
    show "list_all (\<lambda>r. row_id r \<le> users_seq d \<and> role r \<in> set [''admin'', ''user''])
            (users d)"
      using assms(3) by (simp add: schema_ok_def)
  next
    fix x
    assume "x \<in> set (users d)"
      and "row_id x \<le> users_seq d \<and> role x \<in> set [''admin'', ''user'']"
    then show "row_id (g x) \<le> users_seq d \<and> role (g x) \<in> set [''admin'', ''user'']"
      using assms(1,2) by simp
  qed
  then show ?thesis
    using assms(3) by (simp add: schema_ok_def i n)
qed

lemma schema_ok_update_by_id:
  assumes "\<And>r. row_id (f r) = row_id r \<and> username (f r) = username r \<and> role (f r) = role r"
    and "schema_ok d"
  shows "schema_ok (update_users_by_id f i d)"
  unfolding update_users_by_id_def
  using assms(2) by (rule schema_ok_update [rotated 2]) (simp_all add: assms(1))

lemma schema_ok_update_by_name:
  assumes "\<And>r. row_id (f r) = row_id r \<and> username (f r) = username r"
    and "\<And>r. r \<in> set (users d) \<Longrightarrow> username r = u \<Longrightarrow> role (f r) \<in> set [''admin'', ''user'']"
    and "schema_ok d"
  shows "schema_ok (update_users_by_name f u d)"
  unfolding update_users_by_name_def
proof (rule schema_ok_update)
  show "schema_ok d" by (rule assms(3))
next
  fix r
  show "row_id (if username r = u then f r else r) = row_id r \<and>
        username (if username r = u then f r else r) = username r"
    by (simp add: assms(1))
next
  fix r
  assume "r \<in> set (users d)" and "role r \<in> set [''admin'', ''user'']"
  then show "role (if username r = u then f r else r) \<in> set [''admin'', ''user'']"
    using assms(2) [of r] by (cases "username r = u") simp_all
qed

lemma increment_users:
  assumes "schema_ok d"
  shows "users (increment_login_attempts clk d i) =
           map (\<lambda>r. if row_id r = i
                     then r\<lparr>login_attempts := sqlite_add_one (login_attempts r),
                            locked_until := (if 5 \<le> sqlite_add_one (login_attempts r)
                                             then Some (now_lock clk + timedelta_minutes 30)
                                             else locked_until r)\<rparr>
                     else r) (users d)"
proof (cases "find (\<lambda>r. row_id r = i) (users d)")
  case None
  then have no: "\<forall>r\<in>set (users d). row_id r \<noteq> i"
    by (simp add: find_None_iff_ex list_ex_iff)
  then have same: "users (update_users_by_id f i d) = users d" for f
    by (simp add: update_users_by_id_def map_idI)
  have "users (increment_login_attempts clk d i) = users d"
    using None by (simp add: increment_login_attempts_def Let_def same)
  then show ?thesis using no by (simp add: map_idI)
next
  case (Some r)
  then have r: "r \<in> set (users d)" "row_id r = i" using find_Some_mem [OF Some] by simp_all
  have dist: "distinct (map row_id (users d))" using assms by (simp add: schema_ok_def)
  then have inj: "inj_on row_id (set (users d))" by (simp add: distinct_map)
  have only: "x = r" if "x \<in> set (users d)" "row_id x = i" for x
    using inj that r by (auto dest: inj_onD)
  let ?f = "\<lambda>r::user_row. r\<lparr>login_attempts := sqlite_add_one (login_attempts r)\<rparr>"
  have fnd: "find (\<lambda>x. row_id x = i) (users (update_users_by_id ?f i d)) = Some (?f r)"
    using find_id_update [of ?f d r] dist r by simp
  show ?thesis
  proof (cases "5 \<le> sqlite_add_one (login_attempts r)")
    case True
    then show ?thesis
      using fnd only
      by (auto simp: increment_login_attempts_def Let_def update_users_by_id_def)
  next
    case False
    then show ?thesis
      using fnd only
      by (auto simp: increment_login_attempts_def Let_def update_users_by_id_def)
  qed
qed

lemma users_seq_update_by_id [simp]: "users_seq (update_users_by_id f i d) = users_seq d"
  by (simp add: update_users_by_id_def)

lemma users_seq_increment [simp]: "users_seq (increment_login_attempts clk d i) = users_seq d"
  by (simp add: increment_login_attempts_def Let_def split: option.splits)

lemma invariants_increment:
  assumes "schema_ok d" and "lockout_ok d"
  shows "schema_ok (increment_login_attempts clk d i) \<and>
         lockout_ok (increment_login_attempts clk d i)"
proof -
  have "lockout_ok (increment_login_attempts clk d i)"
    using assms(2) unfolding lockout_ok_def increment_users [OF assms(1)] list_all_iff
    by (auto simp: sqlite_add_one_def split: if_splits)
  moreover have "schema_ok (increment_login_attempts clk d i)"
    using assms(1) unfolding schema_ok_def increment_users [OF assms(1)] list_all_iff
    by (auto simp: comp_def if_distrib [of row_id] if_distrib [of username] cong: if_cong)
  ultimately show ?thesis by simp
qed

lemma invariants_login:
  assumes "schema_ok d" and "lockout_ok d"
  shows "schema_ok (update_last_login clk (reset_login_attempts d i) i) \<and>
         lockout_ok (update_last_login clk (reset_login_attempts d i) i)"
proof -
  have "lockout_ok (update_last_login clk (reset_login_attempts d i) i)"
    using assms(2)
    unfolding lockout_ok_def update_last_login_def reset_login_attempts_def
      update_users_by_id_def list_all_iff
    by auto
  moreover have "schema_ok (update_last_login clk (reset_login_attempts d i) i)"
    unfolding update_last_login_def reset_login_attempts_def
    using assms(1) by (intro schema_ok_update_by_id) simp_all
  ultimately show ?thesis by simp
qed

lemma invariants_authenticate:
  assumes "schema_ok d" and "lockout_ok d"
  shows "schema_ok (snd (authenticate kdf clk d u p ip ag)) \<and>
         lockout_ok (snd (authenticate kdf clk d u p ip ag))"
  using assms invariants_increment [OF assms] invariants_login [OF assms]
  by (auto simp: authenticate_def Let_def split: option.splits)

lemma users_seq_log [simp]: "users_seq (log_auth_action d i u a s ip ag) = users_seq d"
  by (simp add: log_auth_action_def)

lemma invariants_create_user:
  assumes "schema_ok d" and "lockout_ok d"
  shows "schema_ok (snd (create_user kdf salt d u p rl fn em)) \<and>
         lockout_ok (snd (create_user kdf salt d u p rl fn em))"
proof (cases "rl \<in> set [''admin'', ''user''] \<and> lookup_user d u = None")
  case True
  then have cu: "create_user kdf salt d u p rl fn em =
           (True, log_auth_action
              (d\<lparr>users := users d @
                  [\<lparr>row_id = users_seq d + 1, username = u,
                    password_hash = hash_password kdf p salt,
                    password_salt = salt, role = rl, full_name = fn, email = em,
                    is_active = True, last_login = None, login_attempts = 0,
                    locked_until = None\<rparr>],
                users_seq := users_seq d + 1\<rparr>)
              (Some (users_seq d + 1)) u ''create_user'' True None None)"
    by (intro create_user_fresh) simp_all
  have fresh: "u \<notin> username ` set (users d)"
    using True by (auto simp: lookup_user_None_iff list_ex_iff)
  have ids: "users_seq d + 1 \<notin> row_id ` set (users d)"
    using assms(1) by (auto simp: schema_ok_def list_all_iff)
  show ?thesis
    using assms True fresh ids
    by (fastforce simp: cu schema_ok_def lockout_ok_def list_all_iff)
next
  case False
  then have "create_user kdf salt d u p rl fn em = (False, d)"
    by (auto simp: create_user_def insert_user_def lookup_user_None_iff)
  then show ?thesis using assms by simp
qed

lemma invariants_change_password:
  assumes "schema_ok d" and "lockout_ok d"
  shows "schema_ok (snd (change_password kdf clk salt d u old new)) \<and>
         lockout_ok (snd (change_password kdf clk salt d u old new))"
proof -
  let ?d1 = "snd (authenticate kdf clk d u old None None)"
  let ?f = "\<lambda>r::user_row. r\<lparr>password_hash := hash_password kdf new salt, password_salt := salt,
                             login_attempts := 0, locked_until := None\<rparr>"
  have a: "schema_ok ?d1" "lockout_ok ?d1"
    using invariants_authenticate [OF assms] by simp_all
  have s: "schema_ok (update_users_by_name ?f u ?d1)"
    using a(1) by (intro schema_ok_update_by_name) (auto simp: schema_ok_def list_all_iff)
  have l: "lockout_ok (update_users_by_name ?f u ?d1)"
    using a(2) unfolding lockout_ok_def update_users_by_name_def list_all_iff by auto
  show ?thesis
    using a s l
    by (cases "authenticate kdf clk d u old None None")
       (auto simp: change_password_def Let_def split: option.splits)
qed

lemma invariants_update_user:
  assumes "schema_ok d" and "lockout_ok d"
  shows "schema_ok (snd (update_user d u kwargs)) \<and> lockout_ok (snd (update_user d u kwargs))"
proof -
  define uf where
    "uf = filter (\<lambda>kw. field kw \<in> set [''full_name'', ''email'', ''role'', ''is_active''])
            kwargs"
  have upd: "update_user d u kwargs =
               (if uf = [] then (False, d)
                else case update_users_set d uf u of
                       Inl IntegrityError \<Rightarrow> (False, d)
                     | Inr d1 \<Rightarrow> (True, d1))"
    by (simp only: update_user_def Let_def uf_def)
  have keep: "row_id (fold assign ks r) = row_id r \<and> username (fold assign ks r) = username r \<and>
              login_attempts (fold assign ks r) = login_attempts r \<and>
              locked_until (fold assign ks r) = locked_until r" for ks r
  proof (induction ks arbitrary: r)
    case Nil
    show ?case by simp
  next
    case (Cons k ks)
    then show ?case by (cases k) simp_all
  qed
  have "schema_ok d1 \<and> lockout_ok d1" if "update_users_set d uf u = Inr d1" for d1
  proof -
    have ok: "\<not> list_ex (\<lambda>r. username r = u \<and>
                role (fold assign uf r) \<notin> set [''admin'', ''user'']) (users d)"
      and d1: "d1 = update_users_by_name (fold assign uf) u d"
      using that by (auto simp: update_users_set_def Let_def split: if_splits)
    have "schema_ok d1"
      unfolding d1 using keep ok assms(1)
      by (intro schema_ok_update_by_name) (auto simp: list_ex_iff)
    moreover have "lockout_ok d1"
      using assms(2) keep unfolding d1 lockout_ok_def update_users_by_name_def list_all_iff
      by auto
    ultimately show ?thesis by simp
  qed
  then show ?thesis
    using assms by (auto simp: upd split: sum.splits sql_error.splits)
qed

lemma invariants_delete_user:
  assumes "schema_ok d" and "lockout_ok d"
  shows "schema_ok (snd (delete_user d u)) \<and> lockout_ok (snd (delete_user d u))"
  using assms
  by (auto simp: delete_user_def Let_def schema_ok_def lockout_ok_def list_all_iff
      distinct_map_filter)

end
